theory Spec2Isabelle
  imports Main "HOL-Library.Sublist"
begin

section \<open>Notes data model\<close>

text \<open>
  The note object documented at the top of \<^verbatim>\<open>App.js\<close>: id, title, content, tags,
  createdAt, updatedAt, pinned. Timestamps are the integers \<^verbatim>\<open>Date.now()\<close> returns.
\<close>

record Note =
  note_id :: string
  title :: string
  content :: string
  tags :: "string list"
  createdAt :: int
  updatedAt :: int
  pinned :: bool

text \<open>
  The second argument of \<^verbatim>\<open>update(id, patch)\<close>: an object holding any subset of a
  note's fields. A field that is \<open>None\<close> is absent from the object.
\<close>

record patch =
  p_id :: "string option"
  p_title :: "string option"
  p_content :: "string option"
  p_tags :: "string list option"
  p_createdAt :: "int option"
  p_updatedAt :: "int option"
  p_pinned :: "bool option"

datatype error = Error string

section \<open>The platform: JSON and localStorage\<close>

text \<open>
  \<^verbatim>\<open>JSON.parse\<close> and \<^verbatim>\<open>JSON.stringify\<close> belong to the JavaScript platform, not to the
  repository, so they are parameters of the model. \<open>JSON_parse\<close> returns \<open>None\<close> where
  \<^verbatim>\<open>JSON.parse\<close> throws a SyntaxError; otherwise the value is an array (of notes) or
  something for which \<^verbatim>\<open>Array.isArray\<close> is false.
\<close>

datatype jsvalue = JArray (elements: "Note list") | JOther

record json =
  JSON_parse :: "string \<Rightarrow> jsvalue option"
  JSON_stringify :: "Note list \<Rightarrow> string"

text \<open>
  \<^verbatim>\<open>localStorage\<close> maps keys to strings; \<^verbatim>\<open>getItem\<close> of an absent key is null. \<^verbatim>\<open>setItem\<close>
  is taken to succeed: the storage quota is not modelled.
\<close>

type_synonym localStorage = "string \<rightharpoonup> string"

definition getItem :: "localStorage \<Rightarrow> string \<Rightarrow> string option" where
  "getItem ls k = ls k"

definition setItem :: "localStorage \<Rightarrow> string \<Rightarrow> string \<Rightarrow> localStorage" where
  "setItem ls k v = ls(k \<mapsto> v)"

definition isArray :: "jsvalue \<Rightarrow> bool" where
  "isArray v = (case v of JArray _ \<Rightarrow> True | JOther \<Rightarrow> False)"

text \<open>
  The list written by \<open>JSON_stringify\<close> is read back by \<open>JSON_parse\<close>, and its text is
  not the empty string (which \<^verbatim>\<open>readLocal\<close> treats as absent).
\<close>

definition roundtrips :: "json \<Rightarrow> Note list \<Rightarrow> bool" where
  "roundtrips J ns \<longleftrightarrow>
     JSON_stringify J ns \<noteq> [] \<and> JSON_parse J (JSON_stringify J ns) = Some (JArray ns)"

section \<open>LocalStorage provider\<close>

definition LS_KEY :: string where
  "LS_KEY = ''notes_app__notes_v1''"

definition readLocal :: "json \<Rightarrow> localStorage \<Rightarrow> Note list" where
  "readLocal J ls =
     (case getItem ls LS_KEY of
        None \<Rightarrow> []
      | Some raw \<Rightarrow>
          if raw = [] then []
          else (case JSON_parse J raw of
                  None \<Rightarrow> []
                | Some parsed \<Rightarrow> if isArray parsed then elements parsed else []))"

definition writeLocal :: "json \<Rightarrow> Note list \<Rightarrow> localStorage \<Rightarrow> localStorage" where
  "writeLocal J ns ls = setItem ls LS_KEY (JSON_stringify J ns)"

text \<open>\<^verbatim>\<open>Array.prototype.findIndex\<close>: the first index whose element passes, \<open>None\<close> for -1.\<close>

fun findIndex :: "('a \<Rightarrow> bool) \<Rightarrow> 'a list \<Rightarrow> nat option" where
  "findIndex P [] = None"
| "findIndex P (x # xs) = (if P x then Some 0 else map_option Suc (findIndex P xs))"

text \<open>Object spread \<^verbatim>\<open>{ ...n, ...patch }\<close>: the patch's fields override the note's.\<close>

definition spread :: "Note \<Rightarrow> patch \<Rightarrow> Note" where
  "spread n p =
     \<lparr> note_id = (case p_id p of None \<Rightarrow> note_id n | Some v \<Rightarrow> v),
       title = (case p_title p of None \<Rightarrow> title n | Some v \<Rightarrow> v),
       content = (case p_content p of None \<Rightarrow> content n | Some v \<Rightarrow> v),
       tags = (case p_tags p of None \<Rightarrow> tags n | Some v \<Rightarrow> v),
       createdAt = (case p_createdAt p of None \<Rightarrow> createdAt n | Some v \<Rightarrow> v),
       updatedAt = (case p_updatedAt p of None \<Rightarrow> updatedAt n | Some v \<Rightarrow> v),
       pinned = (case p_pinned p of None \<Rightarrow> pinned n | Some v \<Rightarrow> v) \<rparr>"

text \<open>
  The provider's methods take the storage and return their result with the storage they
  leave. \<open>now\<close> is the value of \<^verbatim>\<open>Date.now()\<close> at the call.
\<close>

definition list_notes :: "json \<Rightarrow> localStorage \<Rightarrow> Note list" where
  "list_notes J ls = readLocal J ls"

definition create :: "json \<Rightarrow> Note \<Rightarrow> localStorage \<Rightarrow> Note \<times> localStorage" where
  "create J n ls =
     (let notes = readLocal J ls;
          notes = notes @ [n]
      in (n, writeLocal J notes ls))"

definition update ::
  "json \<Rightarrow> int \<Rightarrow> string \<Rightarrow> patch \<Rightarrow> localStorage \<Rightarrow> (error + Note) \<times> localStorage" where
  "update J now i p ls =
     (let notes = readLocal J ls in
      case findIndex (\<lambda>n. note_id n = i) notes of
        None \<Rightarrow> (Inl (Error ''Note not found''), ls)
      | Some idx \<Rightarrow>
          (let updated = (spread (notes ! idx) p)\<lparr>updatedAt := now\<rparr>;
               notes = notes[idx := updated]
           in (Inr updated, writeLocal J notes ls)))"

definition remove :: "json \<Rightarrow> string \<Rightarrow> localStorage \<Rightarrow> bool \<times> localStorage" where
  "remove J i ls =
     (let notes = readLocal J ls;
          filtered = filter (\<lambda>n. note_id n \<noteq> i) notes
      in (True, writeLocal J filtered ls))"

section \<open>Utility helpers\<close>

text \<open>
  \<^verbatim>\<open>String.prototype.trim\<close> and \<^verbatim>\<open>toLowerCase\<close> are platform functions, taken as
  parameters; \<^verbatim>\<open>s.includes(q)\<close> is \<^term>\<open>sublist q s\<close>.
\<close>

record strings =
  trim :: "string \<Rightarrow> string"
  toLowerCase :: "string \<Rightarrow> string"

definition normalizeTag :: "strings \<Rightarrow> string \<Rightarrow> string" where
  "normalizeTag S t = toLowerCase S (trim S t)"

text \<open>
  \<^verbatim>\<open>Array.prototype.sort(compare)\<close>: a stable sort; \<open>a\<close> stays before \<open>b\<close> where
  \<open>compare a b \<le> 0\<close>.
\<close>

fun insert_by :: "('a \<Rightarrow> 'a \<Rightarrow> int) \<Rightarrow> 'a \<Rightarrow> 'a list \<Rightarrow> 'a list" where
  "insert_by cmp x [] = [x]"
| "insert_by cmp x (y # ys) = (if cmp x y \<le> 0 then x # y # ys else y # insert_by cmp x ys)"

definition sort_by :: "('a \<Rightarrow> 'a \<Rightarrow> int) \<Rightarrow> 'a list \<Rightarrow> 'a list" where
  "sort_by cmp xs = foldr (insert_by cmp) xs []"

section \<open>State management\<close>

record state =
  loading :: bool
  "notes" :: "Note list"
  search :: string
  selectedTag :: string
  editorOpen :: bool
  editingNote :: "Note option"

definition initialState :: state where
  "initialState =
     \<lparr> loading = True, notes = [], search = [], selectedTag = ''all'',
       editorOpen = False, editingNote = None \<rparr>"

datatype action =
    INIT "Note list"
  | SET_SEARCH string
  | SET_TAG string
  | OPEN_EDITOR "Note option"
  | CLOSE_EDITOR
  | UPSERT_NOTE Note
  | DELETE_NOTE string
  | OTHER

text \<open>The comparator of the \<^verbatim>\<open>UPSERT_NOTE\<close> case: pinned notes first, then newest update.\<close>

definition upsert_compare :: "Note \<Rightarrow> Note \<Rightarrow> int" where
  "upsert_compare a b =
     (if pinned a \<and> \<not> pinned b then - 1
      else if \<not> pinned a \<and> pinned b then 1
      else updatedAt b - updatedAt a)"

fun reducer :: "state \<Rightarrow> action \<Rightarrow> state" where
  "reducer st (INIT ns) = st\<lparr>loading := False, notes := ns\<rparr>"
| "reducer st (SET_SEARCH v) = st\<lparr>search := v\<rparr>"
| "reducer st (SET_TAG v) = st\<lparr>selectedTag := v\<rparr>"
| "reducer st (OPEN_EDITOR n) = st\<lparr>editorOpen := True, editingNote := n\<rparr>"
| "reducer st CLOSE_EDITOR = st\<lparr>editorOpen := False, editingNote := None\<rparr>"
| "reducer st (UPSERT_NOTE a) =
     (let exists = list_ex (\<lambda>n. note_id n = note_id a) (notes st);
          ns = (if exists then map (\<lambda>n. if note_id n = note_id a then a else n) (notes st)
                else a # notes st)
      in st\<lparr>notes := sort_by upsert_compare ns\<rparr>)"
| "reducer st (DELETE_NOTE i) = st\<lparr>notes := filter (\<lambda>n. note_id n \<noteq> i) (notes st)\<rparr>"
| "reducer st OTHER = st"

section \<open>Root App: derived values and handlers\<close>

definition filteredNotes :: "strings \<Rightarrow> state \<Rightarrow> Note list" where
  "filteredNotes S st =
     (let q = toLowerCase S (trim S (search st)) in
      filter (\<lambda>n.
        let matchesQuery =
              (q = [] \<or> sublist q (toLowerCase S (title n)) \<or> sublist q (toLowerCase S (content n)));
            matchesTag =
              (selectedTag st = ''all'' \<or>
               normalizeTag S (selectedTag st) \<in> set (map (normalizeTag S) (tags n)))
        in matchesQuery \<and> matchesTag) (notes st))"

text \<open>\<^verbatim>\<open>a.updatedAt || a.createdAt\<close>: a zero \<^verbatim>\<open>updatedAt\<close> is falsy.\<close>

definition updated_or_created :: "Note \<Rightarrow> int" where
  "updated_or_created a = (if updatedAt a \<noteq> 0 then updatedAt a else createdAt a)"

definition sortNotes_compare :: "Note \<Rightarrow> Note \<Rightarrow> int" where
  "sortNotes_compare a b =
     (if pinned a \<and> \<not> pinned b then - 1
      else if \<not> pinned a \<and> pinned b then 1
      else updated_or_created b - updated_or_created a)"

definition sortNotes :: "Note list \<Rightarrow> Note list" where
  "sortNotes arr = sort_by sortNotes_compare arr"

text \<open>
  The application is the storage together with the reducer state. A handler returns the
  error it throws, if any, and the application it leaves. \<open>now\<close> is \<^verbatim>\<open>Date.now()\<close> and
  \<open>fresh\<close> is the value of \<^verbatim>\<open>uid()\<close>.
\<close>

type_synonym app = "localStorage \<times> state"

definition load :: "json \<Rightarrow> app \<Rightarrow> app" where
  "load J w =
     (let ns = list_notes J (fst w)
      in (fst w, reducer (snd w) (INIT (sortNotes ns))))"

definition newNote :: "int \<Rightarrow> string \<Rightarrow> patch \<Rightarrow> Note" where
  "newNote now fresh partial =
     \<lparr> note_id = fresh,
       title = (case p_title partial of None \<Rightarrow> [] | Some t \<Rightarrow> t),
       content = (case p_content partial of None \<Rightarrow> [] | Some c \<Rightarrow> c),
       tags = (case p_tags partial of None \<Rightarrow> [] | Some ts \<Rightarrow> ts),
       createdAt = now,
       updatedAt = now,
       pinned = (case p_pinned partial of None \<Rightarrow> False | Some b \<Rightarrow> b) \<rparr>"

definition handleSaveNote ::
  "json \<Rightarrow> int \<Rightarrow> string \<Rightarrow> patch \<Rightarrow> app \<Rightarrow> error option \<times> app" where
  "handleSaveNote J now fresh partial w =
     (case editingNote (snd w) of
        Some e \<Rightarrow>
          (case update J now (note_id e) partial (fst w) of
             (Inl err, ls) \<Rightarrow> (Some err, (ls, snd w))
           | (Inr updated, ls) \<Rightarrow>
               (None, (ls, reducer (reducer (snd w) (UPSERT_NOTE updated)) CLOSE_EDITOR)))
      | None \<Rightarrow>
          (let n = newNote now fresh partial;
               ls = snd (create J n (fst w))
           in (None, (ls, reducer (reducer (snd w) (UPSERT_NOTE n)) CLOSE_EDITOR))))"

definition handleDelete :: "json \<Rightarrow> string \<Rightarrow> app \<Rightarrow> app" where
  "handleDelete J i w =
     (let ls = snd (remove J i (fst w))
      in (ls, reducer (snd w) (DELETE_NOTE i)))"

definition pin_patch :: "bool \<Rightarrow> patch" where
  "pin_patch b =
     \<lparr> p_id = None, p_title = None, p_content = None, p_tags = None,
       p_createdAt = None, p_updatedAt = None, p_pinned = Some b \<rparr>"

definition handleTogglePin :: "json \<Rightarrow> int \<Rightarrow> Note \<Rightarrow> app \<Rightarrow> error option \<times> app" where
  "handleTogglePin J now n w =
     (case update J now (note_id n) (pin_patch (\<not> pinned n)) (fst w) of
        (Inl err, ls) \<Rightarrow> (Some err, (ls, snd w))
      | (Inr updated, ls) \<Rightarrow> (None, (ls, reducer (snd w) (UPSERT_NOTE updated))))"

text \<open>The payload \<^verbatim>\<open>EditorForm\<close> passes to \<^verbatim>\<open>onSave\<close>: title, content, tags and pinned.\<close>

definition editor_payload :: "string \<Rightarrow> string \<Rightarrow> string list \<Rightarrow> bool \<Rightarrow> patch" where
  "editor_payload t c ts b =
     \<lparr> p_id = None, p_title = Some t, p_content = Some c, p_tags = Some ts,
       p_createdAt = None, p_updatedAt = None, p_pinned = Some b \<rparr>"

section \<open>An executable JSON for notes\<close>

text \<open>
  An instance of the \<open>json\<close> interface, to evaluate the model on concrete storage
  contents: \<open>stringify_notes\<close> writes the compact text of \<^verbatim>\<open>JSON.stringify\<close> for an array of
  notes (fields in the order \<^verbatim>\<open>handleSaveNote\<close> creates them, quotes and backslashes
  escaped), and \<open>parse_notes\<close> reads that text back. Other texts it accepts are a few
  non-array values (null, a boolean, an integer, a string, the empty object); everything
  else is a syntax error.
\<close>

definition dq :: char where "dq = CHR 0x22"
definition bs :: char where "bs = CHR 0x5C"

definition escape_char :: "char \<Rightarrow> string" where
  "escape_char c = (if c = dq \<or> c = bs then [bs, c] else [c])"

definition quote :: "string \<Rightarrow> string" where
  "quote s = dq # concat (map escape_char s) @ [dq]"

definition digit_char :: "nat \<Rightarrow> char" where
  "digit_char d = char_of (48 + d)"

fun show_nat :: "nat \<Rightarrow> string" where
  "show_nat n = (if n < 10 then [digit_char n] else show_nat (n div 10) @ [digit_char (n mod 10)])"

declare show_nat.simps [simp del]

definition show_int :: "int \<Rightarrow> string" where
  "show_int i = (if i < 0 then CHR ''-'' # show_nat (nat (- i)) else show_nat (nat i))"

definition show_bool :: "bool \<Rightarrow> string" where
  "show_bool b = (if b then ''true'' else ''false'')"

fun commas :: "string list \<Rightarrow> string" where
  "commas [] = []"
| "commas [x] = x"
| "commas (x # y # zs) = x @ CHR '','' # commas (y # zs)"

definition show_array :: "string list \<Rightarrow> string" where
  "show_array xs = CHR ''['' # commas xs @ '']''"

definition show_note :: "Note \<Rightarrow> string" where
  "show_note n =
     CHR ''{'' # quote ''id'' @ CHR '':'' # quote (note_id n) @
     CHR '','' # quote ''title'' @ CHR '':'' # quote (title n) @
     CHR '','' # quote ''content'' @ CHR '':'' # quote (content n) @
     CHR '','' # quote ''tags'' @ CHR '':'' # show_array (map quote (tags n)) @
     CHR '','' # quote ''createdAt'' @ CHR '':'' # show_int (createdAt n) @
     CHR '','' # quote ''updatedAt'' @ CHR '':'' # show_int (updatedAt n) @
     CHR '','' # quote ''pinned'' @ CHR '':'' # show_bool (pinned n) @ ''}''"

definition stringify_notes :: "Note list \<Rightarrow> string" where
  "stringify_notes ns = show_array (map show_note ns)"

type_synonym 'a parser = "string \<Rightarrow> ('a \<times> string) option"

definition expect :: "string \<Rightarrow> unit parser" where
  "expect pre s = (if prefix pre s then Some ((), drop (length pre) s) else None)"

fun p_chars :: "string parser" where
  "p_chars [] = None"
| "p_chars (c # cs) =
     (if c = dq then Some ([], cs)
      else if c = bs then
        (case cs of [] \<Rightarrow> None
         | d # ds \<Rightarrow> map_option (\<lambda>(t, r). (d # t, r)) (p_chars ds))
      else map_option (\<lambda>(t, r). (c # t, r)) (p_chars cs))"

definition p_string :: "string parser" where
  "p_string s = Option.bind (expect [dq] s) (\<lambda>(_, r). p_chars r)"

definition is_digit :: "char \<Rightarrow> bool" where
  "is_digit c \<longleftrightarrow> 48 \<le> (of_char c :: nat) \<and> (of_char c :: nat) \<le> 57"

definition p_nat :: "nat parser" where
  "p_nat s =
     (let ds = takeWhile is_digit s in
      if ds = [] then None
      else Some (foldl (\<lambda>a c. 10 * a + (of_char c - 48)) 0 ds, dropWhile is_digit s))"

definition p_int :: "int parser" where
  "p_int s =
     (case s of
        [] \<Rightarrow> None
      | c # cs \<Rightarrow>
          if c = CHR ''-'' then map_option (\<lambda>(n, r). (- int n, r)) (p_nat cs)
          else map_option (\<lambda>(n, r). (int n, r)) (p_nat s))"

definition p_bool :: "bool parser" where
  "p_bool s =
     (if prefix ''true'' s then Some (True, drop 4 s)
      else if prefix ''false'' s then Some (False, drop 5 s)
      else None)"

text \<open>The elements of an array after its first one, up to the closing bracket.\<close>

fun p_more :: "'a parser \<Rightarrow> nat \<Rightarrow> 'a list parser" where
  "p_more p 0 s = None"
| "p_more p (Suc k) s =
     (case s of
        [] \<Rightarrow> None
      | c # cs \<Rightarrow>
          if c = CHR '']'' then Some ([], cs)
          else if c = CHR '','' then
            Option.bind (p cs) (\<lambda>(x, r). map_option (\<lambda>(xs, r'). (x # xs, r')) (p_more p k r))
          else None)"

definition p_array :: "'a parser \<Rightarrow> 'a list parser" where
  "p_array p s =
     (case s of
        [] \<Rightarrow> None
      | c # cs \<Rightarrow>
          if c \<noteq> CHR ''['' then None
          else if prefix '']'' cs then Some ([], drop 1 cs)
          else Option.bind (p cs)
                 (\<lambda>(x, r). map_option (\<lambda>(xs, r'). (x # xs, r')) (p_more p (length r) r)))"

definition p_field :: "string \<Rightarrow> 'a parser \<Rightarrow> 'a parser" where
  "p_field name p s = Option.bind (expect (quote name @ '':'') s) (\<lambda>(_, r). p r)"

definition p_note :: "Note parser" where
  "p_note s =
     Option.bind (expect ''{'' s) (\<lambda>(_, s).
     Option.bind (p_field ''id'' p_string s) (\<lambda>(i, s).
     Option.bind (expect '','' s) (\<lambda>(_, s).
     Option.bind (p_field ''title'' p_string s) (\<lambda>(t, s).
     Option.bind (expect '','' s) (\<lambda>(_, s).
     Option.bind (p_field ''content'' p_string s) (\<lambda>(c, s).
     Option.bind (expect '','' s) (\<lambda>(_, s).
     Option.bind (p_field ''tags'' (p_array p_string) s) (\<lambda>(ts, s).
     Option.bind (expect '','' s) (\<lambda>(_, s).
     Option.bind (p_field ''createdAt'' p_int s) (\<lambda>(ca, s).
     Option.bind (expect '','' s) (\<lambda>(_, s).
     Option.bind (p_field ''updatedAt'' p_int s) (\<lambda>(ua, s).
     Option.bind (expect '','' s) (\<lambda>(_, s).
     Option.bind (p_field ''pinned'' p_bool s) (\<lambda>(b, s).
     Option.bind (expect ''}'' s) (\<lambda>(_, s).
       Some (\<lparr> note_id = i, title = t, content = c, tags = ts,
                createdAt = ca, updatedAt = ua, pinned = b \<rparr>, s))))))))))))))))"

definition is_scalar :: "string \<Rightarrow> bool" where
  "is_scalar s \<longleftrightarrow>
     s = ''null'' \<or> s = ''{}'' \<or>
     (case p_bool s of Some (_, r) \<Rightarrow> r = [] | None \<Rightarrow> False) \<or>
     (case p_int s of Some (_, r) \<Rightarrow> r = [] | None \<Rightarrow> False) \<or>
     (case p_string s of Some (_, r) \<Rightarrow> r = [] | None \<Rightarrow> False)"

definition parse_notes :: "string \<Rightarrow> jsvalue option" where
  "parse_notes s =
     (case p_array p_note s of
        Some (ns, r) \<Rightarrow> if r = [] then Some (JArray ns) else None
      | None \<Rightarrow> if is_scalar s then Some JOther else None)"

definition JSON :: json where
  "JSON = \<lparr> JSON_parse = parse_notes, JSON_stringify = stringify_notes \<rparr>"

section \<open>An ASCII instance of the string functions\<close>

text \<open>
  \<open>trim\<close> strips the ASCII white space at both ends and \<open>toLowerCase\<close> maps the letters
  A to Z to a to z; used to evaluate \<open>filteredNotes\<close> on concrete states.
\<close>

definition lower_char :: "char \<Rightarrow> char" where
  "lower_char c =
     (let k = (of_char c :: nat) in if 65 \<le> k \<and> k \<le> 90 then char_of (k + 32) else c)"

definition is_space :: "char \<Rightarrow> bool" where
  "is_space c \<longleftrightarrow> c \<in> set [CHR '' '', CHR 0x09, CHR 0x0A, CHR 0x0B, CHR 0x0C, CHR 0x0D]"

definition ascii :: strings where
  "ascii = \<lparr> trim = (\<lambda>s. rev (dropWhile is_space (rev (dropWhile is_space s)))),
             toLowerCase = map lower_char \<rparr>"

section \<open>Vocabulary of the properties\<close>

text \<open>
  The note \<^verbatim>\<open>update\<close> builds: \<^verbatim>\<open>{ ...old, ...patch, updatedAt: Date.now() }\<close>.
\<close>

definition merged :: "Note \<Rightarrow> patch \<Rightarrow> int \<Rightarrow> Note" where
  "merged old p now = (spread old p)\<lparr>updatedAt := now\<rparr>"

text \<open>
  What it means that a patch has been applied to a stored note, field by field: a field the
  patch holds has the patch's value, a field it lacks keeps the stored value. The field
  \<^verbatim>\<open>updatedAt\<close> is left out: \<^verbatim>\<open>update\<close> sets it to the current time.
\<close>

definition patch_applied :: "Note \<Rightarrow> patch \<Rightarrow> Note \<Rightarrow> bool" where
  "patch_applied old p m \<longleftrightarrow>
     (\<forall>v. p_id p = Some v \<longrightarrow> note_id m = v) \<and> (p_id p = None \<longrightarrow> note_id m = note_id old) \<and>
     (\<forall>v. p_title p = Some v \<longrightarrow> title m = v) \<and> (p_title p = None \<longrightarrow> title m = title old) \<and>
     (\<forall>v. p_content p = Some v \<longrightarrow> content m = v) \<and>
     (p_content p = None \<longrightarrow> content m = content old) \<and>
     (\<forall>v. p_tags p = Some v \<longrightarrow> tags m = v) \<and> (p_tags p = None \<longrightarrow> tags m = tags old) \<and>
     (\<forall>v. p_createdAt p = Some v \<longrightarrow> createdAt m = v) \<and>
     (p_createdAt p = None \<longrightarrow> createdAt m = createdAt old) \<and>
     (\<forall>v. p_pinned p = Some v \<longrightarrow> pinned m = v) \<and> (p_pinned p = None \<longrightarrow> pinned m = pinned old)"

text \<open>
  Every pinned note precedes every unpinned one; and within the pinned notes and within the
  unpinned ones, the \<open>key\<close> never increases along the list.
\<close>

definition pinned_first :: "Note list \<Rightarrow> bool" where
  "pinned_first xs = sorted_wrt (\<lambda>a b. pinned b \<longrightarrow> pinned a) xs"

definition newest_first :: "(Note \<Rightarrow> int) \<Rightarrow> Note list \<Rightarrow> bool" where
  "newest_first key xs = sorted_wrt (\<lambda>a b. pinned a = pinned b \<longrightarrow> key b \<le> key a) xs"

text \<open>
  A comparator for which \<^verbatim>\<open>sort\<close> has a defined result: any two elements are comparable and
  the order is transitive.
\<close>

definition consistent_compare :: "('a \<Rightarrow> 'a \<Rightarrow> int) \<Rightarrow> bool" where
  "consistent_compare cmp \<longleftrightarrow>
     (\<forall>a b. cmp a b \<le> 0 \<or> cmp b a \<le> 0) \<and>
     (\<forall>a b c. cmp a b \<le> 0 \<longrightarrow> cmp b c \<le> 0 \<longrightarrow> cmp a c \<le> 0)"

text \<open>
  The reducer state holds the same set of notes as the storage.
\<close>

definition in_sync :: "json \<Rightarrow> app \<Rightarrow> bool" where
  "in_sync J w \<longleftrightarrow> set (notes (snd w)) = set (readLocal J (fst w))"

text \<open>
  At most one note of the list has the id.
\<close>

definition sole_id :: "Note list \<Rightarrow> string \<Rightarrow> bool" where
  "sole_id xs i \<longleftrightarrow> length (filter (\<lambda>n. note_id n = i) xs) \<le> 1"

text \<open>
  The list with its first note of the given id replaced by \<open>f\<close> of that note, and every
  other note where it was.
\<close>

fun rewrite_first :: "string \<Rightarrow> (Note \<Rightarrow> Note) \<Rightarrow> Note list \<Rightarrow> Note list" where
  "rewrite_first i f [] = []"
| "rewrite_first i f (x # xs) = (if note_id x = i then f x # xs else x # rewrite_first i f xs)"

text \<open>
  What may follow the digits of a number in a text: nothing, or a character that is no digit.
\<close>

definition ends_number :: "string \<Rightarrow> bool" where
  "ends_number r \<longleftrightarrow> (case r of [] \<Rightarrow> True | c # _ \<Rightarrow> \<not> is_digit c)"

section \<open>Example data\<close>

definition demo :: Note where
  "demo = \<lparr> note_id = ''a'', title = ''T'', content = ''c'', tags = [''x''],
            createdAt = 5, updatedAt = 7, pinned = False \<rparr>"

definition demo2 :: Note where
  "demo2 = \<lparr> note_id = ''b'', title = ''U'', content = ''d'', tags = [],
            createdAt = 6, updatedAt = 9, pinned = True \<rparr>"

definition demo3 :: Note where
  "demo3 = \<lparr> note_id = ''c'', title = ''Tea'', content = ''x'', tags = [''y'', '' Home ''],
             createdAt = 3, updatedAt = 4, pinned = False \<rparr>"

definition stored :: localStorage where
  "stored = writeLocal JSON [demo, demo2] Map.empty"

definition loaded :: app where
  "loaded = load JSON (stored, initialState)"

definition editing :: app where
  "editing = (fst loaded, reducer (snd loaded) (OPEN_EDITOR (Some demo2)))"

definition created :: Note where
  "created = \<lparr> note_id = ''n'', title = ''New'', content = ''text'', tags = [''x''],
               createdAt = 20, updatedAt = 20, pinned = True \<rparr>"

text \<open>
  A patch holding a title, tags, a pinned flag and a stale \<^verbatim>\<open>updatedAt\<close>, and the note it makes
  of \<open>demo2\<close> at time 20.
\<close>

definition retitle :: patch where
  "retitle = \<lparr> p_id = None, p_title = Some ''New'', p_content = None, p_tags = Some [''k''],
               p_createdAt = None, p_updatedAt = Some 1, p_pinned = Some False \<rparr>"

definition retitled :: Note where
  "retitled = \<lparr> note_id = ''b'', title = ''New'', content = ''d'', tags = [''k''],
               createdAt = 6, updatedAt = 20, pinned = False \<rparr>"

text \<open>
  Search text and selected tag in need of trimming and lowercasing.
\<close>

definition searching :: state where
  "searching = initialState\<lparr>notes := [demo, demo2, demo3], search := '' t '', selectedTag := '' X''\<rparr>"

definition searching_home :: state where
  "searching_home = searching\<lparr>selectedTag := ''HOME''\<rparr>"

text \<open>
  A note whose \<^verbatim>\<open>updatedAt\<close> is zero, and a note updated before the first was created.
\<close>

definition zero_stamp :: Note where
  "zero_stamp = \<lparr> note_id = ''z'', title = ''Z'', content = [], tags = [],
                  createdAt = 100, updatedAt = 0, pinned = False \<rparr>"

definition fifty :: Note where
  "fifty = \<lparr> note_id = ''y'', title = ''Y'', content = [], tags = [],
             createdAt = 10, updatedAt = 50, pinned = False \<rparr>"

definition stale :: app where
  "stale = load JSON (writeLocal JSON [fifty, zero_stamp] Map.empty, initialState)"

text \<open>
  Two pinned and two unpinned notes, stored out of order.
\<close>

definition pin_old :: Note where
  "pin_old = \<lparr> note_id = ''p1'', title = ''P'', content = [], tags = [],
               createdAt = 1, updatedAt = 3, pinned = True \<rparr>"

definition pin_new :: Note where
  "pin_new = \<lparr> note_id = ''p2'', title = ''Q'', content = [], tags = [],
               createdAt = 2, updatedAt = 8, pinned = True \<rparr>"

definition plain_old :: Note where
  "plain_old = \<lparr> note_id = ''u1'', title = ''R'', content = [], tags = [],
                 createdAt = 1, updatedAt = 2, pinned = False \<rparr>"

definition plain_new :: Note where
  "plain_new = \<lparr> note_id = ''u2'', title = ''S'', content = [], tags = [],
                 createdAt = 4, updatedAt = 9, pinned = False \<rparr>"

definition board :: app where
  "board = load JSON (writeLocal JSON [plain_old, pin_old, zero_stamp, plain_new, pin_new] Map.empty,
                      initialState)"

definition board_state :: state where
  "board_state = initialState\<lparr>notes := [pin_new, pin_old, plain_new, plain_old]\<rparr>"

text \<open>
  Two stored notes with the same id.
\<close>

definition twin1 :: Note where
  "twin1 = \<lparr> note_id = ''a'', title = ''one'', content = [], tags = [],
             createdAt = 5, updatedAt = 7, pinned = False \<rparr>"

definition twin2 :: Note where
  "twin2 = \<lparr> note_id = ''a'', title = ''two'', content = [], tags = [],
             createdAt = 6, updatedAt = 9, pinned = False \<rparr>"

definition twins :: app where
  "twins = load JSON (writeLocal JSON [twin1, twin2] Map.empty, initialState)"

section \<open>The executable JSON reads back what it writes\<close>

lemma expect_append: "expect pre (pre @ r) = Some ((), r)"
  by (simp add: expect_def)

lemma p_chars_escape: "p_chars (concat (map escape_char s) @ dq # r) = Some (s, r)"
  by (induction s) (simp_all add: escape_char_def dq_def bs_def)

lemma p_string_quote: "p_string (quote s @ r) = Some (s, r)"
  by (simp add: p_string_def quote_def expect_def p_chars_escape)

lemma p_bool_show: "p_bool (show_bool b @ r) = Some (b, r)"
  by (simp add: p_bool_def show_bool_def)

lemma is_digit_digit_char: "d < 10 \<Longrightarrow> is_digit (digit_char d)"
  by (simp add: is_digit_def digit_char_def)

lemma digit_char_value: "d < 10 \<Longrightarrow> of_char (digit_char d) - 48 = d"
  by (simp add: digit_char_def)

lemma show_nat_digits: "\<forall>c \<in> set (show_nat n). is_digit c"
proof (induction n rule: show_nat.induct)
  case (1 n)
  then show ?case
    by (subst show_nat.simps) (auto simp: is_digit_digit_char)
qed

lemma show_nat_nonempty: "show_nat n \<noteq> []"
  by (subst show_nat.simps) simp

lemma show_nat_value: "foldl (\<lambda>a c. 10 * a + (of_char c - 48)) 0 (show_nat n) = n"
proof (induction n rule: show_nat.induct)
  case (1 n)
  show ?case
  proof (cases "n < 10")
    case True
    then show ?thesis by (subst show_nat.simps) (simp add: digit_char_value)
  next
    case False
    with 1 show ?thesis by (subst show_nat.simps) (simp add: digit_char_value)
  qed
qed

lemma p_nat_show: "ends_number r \<Longrightarrow> p_nat (show_nat n @ r) = Some (n, r)"
proof -
  assume r: "ends_number r"
  then have t: "takeWhile is_digit r = []" and d: "dropWhile is_digit r = r"
    by (cases r; simp add: ends_number_def)+
  have "takeWhile is_digit (show_nat n @ r) = show_nat n"
    using show_nat_digits [of n] t by (simp add: takeWhile_append2)
  moreover have "dropWhile is_digit (show_nat n @ r) = r"
    using show_nat_digits [of n] d by (simp add: dropWhile_append2)
  ultimately show ?thesis
    by (simp add: p_nat_def show_nat_nonempty show_nat_value)
qed

lemma show_nat_no_minus: "show_nat n @ r = c # cs \<Longrightarrow> c \<noteq> CHR ''-''"
proof -
  assume a: "show_nat n @ r = c # cs"
  obtain d ds where s: "show_nat n = d # ds"
    using show_nat_nonempty [of n] by (cases "show_nat n") auto
  with show_nat_digits [of n] have "is_digit d" by simp
  moreover from a s have "c = d" by simp
  ultimately show ?thesis by (auto simp: is_digit_def)
qed

lemma p_int_show: "ends_number r \<Longrightarrow> p_int (show_int i @ r) = Some (i, r)"
proof (cases "i < 0")
  case True
  assume "ends_number r"
  with True show ?thesis
    by (simp add: p_int_def show_int_def p_nat_show)
next
  case False
  assume r: "ends_number r"
  obtain c cs where s: "show_nat (nat i) @ r = c # cs"
    using show_nat_nonempty [of "nat i"] by (cases "show_nat (nat i) @ r") auto
  from show_nat_no_minus [OF s] have "c \<noteq> CHR ''-''" .
  moreover have "p_nat (c # cs) = Some (nat i, r)"
    using p_nat_show [OF r, of "nat i"] s by simp
  ultimately show ?thesis
    using False s by (simp add: p_int_def show_int_def)
qed

lemma commas_Cons: "commas (x # xs) = x @ concat (map (\<lambda>y. CHR '','' # y) xs)"
  by (induction xs arbitrary: x) simp_all

lemma p_more_show:
  assumes "\<forall>x \<in> set xs. \<forall>r. p (sh x @ r) = Some (x, r)" and "length xs < k"
  shows "p_more p k (concat (map (\<lambda>y. CHR '','' # y) (map sh xs)) @ CHR '']'' # r) = Some (xs, r)"
  using assms
proof (induction xs arbitrary: k)
  case Nil
  then show ?case by (cases k) simp_all
next
  case (Cons x xs)
  then obtain k' where k: "k = Suc k'" "length xs < k'"
    by (cases k) auto
  with Cons show ?case by simp
qed

lemma length_concat_commas: "length xs \<le> length (concat (map (\<lambda>y. CHR '','' # y) (map sh xs)))"
  by (induction xs) simp_all

lemma p_array_show:
  assumes elem: "\<forall>x \<in> set xs. \<forall>r. p (sh x @ r) = Some (x, r)"
    and first: "\<forall>x \<in> set xs. \<exists>c cs. sh x = c # cs \<and> c \<noteq> CHR '']''"
  shows "p_array p (show_array (map sh xs) @ r) = Some (xs, r)"
proof (cases xs)
  case Nil
  then show ?thesis by (simp add: p_array_def show_array_def)
next
  case (Cons x ys)
  from first Cons obtain c cs where c: "sh x = c # cs" "c \<noteq> CHR '']''"
    by auto
  let ?rest = "concat (map (\<lambda>y. CHR '','' # y) (map sh ys)) @ CHR '']'' # r"
  have more: "p_more p (length ?rest) ?rest = Some (ys, r)"
  proof (rule p_more_show)
    show "\<forall>x \<in> set ys. \<forall>r. p (sh x @ r) = Some (x, r)"
      using elem Cons by simp
    show "length ys < length ?rest"
      using length_concat_commas [of ys sh] by simp
  qed
  have px: "p (c # cs @ ?rest) = Some (x, ?rest)"
    using elem Cons c(1) by (metis append_Cons list.set_intros(1))
  show ?thesis
    using c more px by (simp add: Cons p_array_def show_array_def commas_Cons)
qed

lemma p_tags_show: "p_array p_string (show_array (map quote ts) @ r) = Some (ts, r)"
proof (rule p_array_show)
  show "\<forall>x \<in> set ts. \<forall>r. p_string (quote x @ r) = Some (x, r)"
    by (simp add: p_string_quote)
  show "\<forall>x \<in> set ts. \<exists>c cs. quote x = c # cs \<and> c \<noteq> CHR '']''"
    by (simp add: quote_def dq_def)
qed

lemma p_field_show:
  "p (v @ r) = Some (x, r) \<Longrightarrow> p_field name p (quote name @ CHR '':'' # v @ r) = Some (x, r)"
  by (simp add: p_field_def expect_def)

lemma ends_number_simps: "ends_number (CHR '','' # r)" "ends_number (CHR ''}'' # r)"
  by (simp_all add: ends_number_def is_digit_def)

lemma p_note_show: "p_note (show_note n @ r) = Some (n, r)"
  unfolding p_note_def show_note_def
  by (simp add: expect_def p_field_show p_string_quote p_tags_show p_int_show p_bool_show
      ends_number_simps)

lemma show_note_first: "\<exists>c cs. show_note n = c # cs \<and> c \<noteq> CHR '']''"
  by (simp add: show_note_def)

lemma parse_stringify: "parse_notes (stringify_notes ns) = Some (JArray ns)"
proof -
  have "p_array p_note (show_array (map show_note ns) @ []) = Some (ns, [])"
  proof (rule p_array_show)
    show "\<forall>x \<in> set ns. \<forall>r. p_note (show_note x @ r) = Some (x, r)"
      by (simp add: p_note_show)
    show "\<forall>x \<in> set ns. \<exists>c cs. show_note x = c # cs \<and> c \<noteq> CHR '']''"
      using show_note_first by blast
  qed
  then show ?thesis
    by (simp add: parse_notes_def stringify_notes_def)
qed

lemma stringify_nonempty: "stringify_notes ns \<noteq> []"
  by (simp add: stringify_notes_def show_array_def)

lemma roundtrips_JSON: "roundtrips JSON ns"
  by (simp add: roundtrips_def JSON_def parse_stringify stringify_nonempty)

lemma parse_bad: "JSON_parse JSON ''{oops'' = None"
  by code_simp

lemma parse_scalar: "JSON_parse JSON ''42'' = Some JOther"
  by code_simp

section \<open>Storage provider\<close>

lemma getItem_writeLocal: "getItem (writeLocal J ns ls) LS_KEY = Some (JSON_stringify J ns)"
  by (simp add: getItem_def writeLocal_def setItem_def)

lemma readLocal_writeLocal: "roundtrips J ns \<Longrightarrow> readLocal J (writeLocal J ns ls) = ns"
  by (simp add: readLocal_def getItem_writeLocal roundtrips_def isArray_def)

lemma readLocal_stored: "readLocal JSON stored = [demo, demo2]"
  unfolding stored_def by (rule readLocal_writeLocal [OF roundtrips_JSON])

lemma roundtrips_demo: "roundtrips JSON [demo, demo2]"
  by code_simp

lemma findIndex_None: "findIndex P xs = None \<longleftrightarrow> (\<forall>x \<in> set xs. \<not> P x)"
  by (induction xs) auto

lemma findIndex_Some:
  "findIndex P xs = Some i \<Longrightarrow> i < length xs \<and> P (xs ! i) \<and> (\<forall>j < i. \<not> P (xs ! j))"
proof (induction xs arbitrary: i)
  case Nil
  then show ?case by simp
next
  case (Cons x xs)
  show ?case
  proof (cases "P x")
    case True
    with Cons.prems show ?thesis by simp
  next
    case False
    with Cons.prems obtain k where k: "findIndex P xs = Some k" "i = Suc k"
      by auto
    from Cons.IH [OF k(1)] False k(2) show ?thesis
      by (auto simp: nth_Cons split: nat.splits)
  qed
qed

lemma update_None:
  "findIndex (\<lambda>n. note_id n = i) (readLocal J ls) = None \<Longrightarrow>
   update J now i p ls = (Inl (Error ''Note not found''), ls)"
  by (simp add: update_def)

lemma update_Some:
  "findIndex (\<lambda>n. note_id n = i) (readLocal J ls) = Some idx \<Longrightarrow>
   update J now i p ls =
     (Inr (merged (readLocal J ls ! idx) p now),
      writeLocal J ((readLocal J ls)[idx := merged (readLocal J ls ! idx) p now]) ls)"
  by (simp add: update_def merged_def Let_def)

lemma patch_applied_merged: "patch_applied old p (merged old p now)"
  by (simp add: patch_applied_def merged_def spread_def)

subsection \<open>Reading\<close>

text \<open>
  C2. Reading the notes collection never fails. When the value under the storage key is
  absent, is not valid JSON, or parses to a value that is not an array, \<open>readLocal\<close>, and with
  it the provider's \<open>list\<close>, returns the empty list.
\<close>

theorem readLocal_defaults_to_empty:
  assumes "getItem ls LS_KEY = None \<or>
           (\<exists>raw. getItem ls LS_KEY = Some raw \<and>
              (JSON_parse J raw = None \<or> (\<exists>v. JSON_parse J raw = Some v \<and> \<not> isArray v)))"
  shows "readLocal J ls = [] \<and> list_notes J ls = []"
  using assms by (auto simp: readLocal_def list_notes_def)

theorem readLocal_defaults_to_empty_witness:
  "list_notes JSON Map.empty = [] \<and>
   JSON_parse JSON ''{oops'' = None \<and> list_notes JSON [LS_KEY \<mapsto> ''{oops''] = [] \<and>
   JSON_parse JSON ''42'' = Some JOther \<and> list_notes JSON [LS_KEY \<mapsto> ''42''] = []"
proof -
  have a: "list_notes JSON Map.empty = []"
    using readLocal_defaults_to_empty [of Map.empty JSON] by (simp add: getItem_def)
  have b: "list_notes JSON [LS_KEY \<mapsto> ''{oops''] = []"
    using readLocal_defaults_to_empty [of "[LS_KEY \<mapsto> ''{oops'']" JSON] parse_bad
    by (simp add: getItem_def)
  have c: "list_notes JSON [LS_KEY \<mapsto> ''42''] = []"
    using readLocal_defaults_to_empty [of "[LS_KEY \<mapsto> ''42'']" JSON] parse_scalar
    by (simp add: getItem_def isArray_def)
  from a b c parse_bad parse_scalar show ?thesis by simp
qed

text \<open>
  C8. Writing a list of notes and reading it back yields that list, whatever the storage
  held before: \<open>writeLocal\<close> replaces the text under the key. The premise is the platform's:
  \<open>JSON.parse\<close> reads back what \<open>JSON.stringify\<close> wrote for this list.
\<close>

theorem write_then_read:
  assumes "roundtrips J ns"
  shows "readLocal J (writeLocal J ns ls) = ns \<and>
         getItem (writeLocal J ns ls) LS_KEY = Some (JSON_stringify J ns)"
  using assms by (simp add: readLocal_writeLocal getItem_writeLocal)

theorem write_then_read_witness:
  "roundtrips JSON [demo, demo2] \<and>
   readLocal JSON (writeLocal JSON [demo, demo2] [LS_KEY \<mapsto> ''{oops'']) = [demo, demo2]"
  using write_then_read [OF roundtrips_demo, of "[LS_KEY \<mapsto> ''{oops'']"] roundtrips_demo
  by simp

subsection \<open>create\<close>

text \<open>
  C6. \<open>create\<close> returns the note it is given and writes the prior collection with that note
  appended at the end; read back, the collection is the prior one, unchanged in value and
  order, followed by the note.
\<close>

theorem create_appends:
  "fst (create J n ls) = n \<and>
   snd (create J n ls) = writeLocal J (readLocal J ls @ [n]) ls \<and>
   (roundtrips J (readLocal J ls @ [n]) \<longrightarrow>
      readLocal J (snd (create J n ls)) = readLocal J ls @ [n] \<and>
      take (length (readLocal J ls)) (readLocal J (snd (create J n ls))) = readLocal J ls)"
  by (simp add: create_def readLocal_writeLocal)

theorem create_appends_witness:
  "roundtrips JSON ([demo] @ [demo2]) \<and>
   readLocal JSON (snd (create JSON demo2 (writeLocal JSON [demo] Map.empty))) = [demo, demo2]"
proof -
  have r1: "roundtrips JSON [demo]" by code_simp
  have r2: "roundtrips JSON ([demo] @ [demo2])" by code_simp
  have prior: "readLocal JSON (writeLocal JSON [demo] Map.empty) = [demo]"
    by (rule readLocal_writeLocal [OF r1])
  have r3: "roundtrips JSON (readLocal JSON (writeLocal JSON [demo] Map.empty) @ [demo2])"
    unfolding prior by (rule r2)
  have "readLocal JSON (snd (create JSON demo2 (writeLocal JSON [demo] Map.empty)))
          = readLocal JSON (writeLocal JSON [demo] Map.empty) @ [demo2]"
    using create_appends [of JSON demo2 "writeLocal JSON [demo] Map.empty"] r3 by blast
  with r2 show ?thesis by (simp add: prior)
qed

subsection \<open>remove\<close>

text \<open>
  C7. \<open>remove\<close> returns true and writes the collection without the notes whose id is the
  given one; the other notes keep their values and their order.
\<close>

theorem remove_filters:
  "fst (remove J i ls) = True \<and>
   snd (remove J i ls) = writeLocal J (filter (\<lambda>n. note_id n \<noteq> i) (readLocal J ls)) ls \<and>
   (roundtrips J (filter (\<lambda>n. note_id n \<noteq> i) (readLocal J ls)) \<longrightarrow>
      readLocal J (snd (remove J i ls)) = filter (\<lambda>n. note_id n \<noteq> i) (readLocal J ls))"
  by (simp add: remove_def readLocal_writeLocal)

theorem remove_filters_witness:
  "roundtrips JSON [demo2] \<and>
   readLocal JSON (snd (remove JSON ''a'' (writeLocal JSON [demo, demo2, demo] Map.empty))) = [demo2]"
proof -
  have r1: "roundtrips JSON [demo, demo2, demo]" by code_simp
  have r2: "roundtrips JSON [demo2]" by code_simp
  have prior: "readLocal JSON (writeLocal JSON [demo, demo2, demo] Map.empty) = [demo, demo2, demo]"
    by (rule readLocal_writeLocal [OF r1])
  have f: "filter (\<lambda>n. note_id n \<noteq> ''a'') [demo, demo2, demo] = [demo2]"
    by (simp add: demo_def demo2_def)
  have r3: "roundtrips JSON (filter (\<lambda>n. note_id n \<noteq> ''a'')
               (readLocal JSON (writeLocal JSON [demo, demo2, demo] Map.empty)))"
    unfolding prior f by (rule r2)
  have "readLocal JSON (snd (remove JSON ''a'' (writeLocal JSON [demo, demo2, demo] Map.empty)))
          = filter (\<lambda>n. note_id n \<noteq> ''a'')
              (readLocal JSON (writeLocal JSON [demo, demo2, demo] Map.empty))"
    using remove_filters [of JSON "''a''" "writeLocal JSON [demo, demo2, demo] Map.empty"] r3
    by blast
  then have "readLocal JSON (snd (remove JSON ''a'' (writeLocal JSON [demo, demo2, demo] Map.empty)))
          = [demo2]"
    unfolding prior f .
  with r2 show ?thesis by simp
qed

text \<open>
  C9. Removing an id that no stored note has is not an error: \<open>remove\<close> returns true and the
  persisted collection is the one it was.
\<close>

theorem remove_absent_id:
  assumes "i \<notin> note_id ` set (readLocal J ls)"
    and "roundtrips J (readLocal J ls)"
  shows "fst (remove J i ls) = True \<and> readLocal J (snd (remove J i ls)) = readLocal J ls"
proof -
  have "filter (\<lambda>n. note_id n \<noteq> i) (readLocal J ls) = readLocal J ls"
    using assms(1) by (auto simp: filter_id_conv)
  with assms(2) show ?thesis
    by (simp add: remove_def readLocal_writeLocal)
qed

theorem remove_absent_id_witness:
  "''zz'' \<notin> note_id ` set (readLocal JSON (writeLocal JSON [demo, demo2] Map.empty)) \<and>
   roundtrips JSON (readLocal JSON (writeLocal JSON [demo, demo2] Map.empty)) \<and>
   fst (remove JSON ''zz'' (writeLocal JSON [demo, demo2] Map.empty)) = True \<and>
   readLocal JSON (snd (remove JSON ''zz'' (writeLocal JSON [demo, demo2] Map.empty))) = [demo, demo2]"
proof -
  have prior: "readLocal JSON (writeLocal JSON [demo, demo2] Map.empty) = [demo, demo2]"
    by (rule readLocal_writeLocal [OF roundtrips_demo])
  have h1: "''zz'' \<notin> note_id ` set (readLocal JSON (writeLocal JSON [demo, demo2] Map.empty))"
    unfolding prior by (simp add: demo_def demo2_def)
  have h2: "roundtrips JSON (readLocal JSON (writeLocal JSON [demo, demo2] Map.empty))"
    by (simp add: prior roundtrips_demo)
  from remove_absent_id [OF h1 h2] h1 h2 prior show ?thesis by simp
qed

subsection \<open>update\<close>

text \<open>
  C10. An \<open>update\<close> that fails with \<open>Note not found\<close> leaves the storage exactly as it was.
\<close>

theorem failed_update_writes_nothing:
  assumes "fst (update J now i p ls) = Inl (Error ''Note not found'')"
  shows "snd (update J now i p ls) = ls"
  using assms by (simp add: update_def Let_def split: option.splits)

theorem failed_update_writes_nothing_witness:
  "fst (update JSON 8 ''zz'' (pin_patch True) (writeLocal JSON [demo, demo2] Map.empty))
     = Inl (Error ''Note not found'') \<and>
   snd (update JSON 8 ''zz'' (pin_patch True) (writeLocal JSON [demo, demo2] Map.empty))
     = writeLocal JSON [demo, demo2] Map.empty"
proof -
  have prior: "readLocal JSON (writeLocal JSON [demo, demo2] Map.empty) = [demo, demo2]"
    by (rule readLocal_writeLocal [OF roundtrips_demo])
  have h: "fst (update JSON 8 ''zz'' (pin_patch True) (writeLocal JSON [demo, demo2] Map.empty))
     = Inl (Error ''Note not found'')"
    unfolding update_def prior by (simp add: demo_def demo2_def)
  from failed_update_writes_nothing [OF h] h show ?thesis by simp
qed

text \<open>
  C3. \<open>update\<close> fails with \<open>Note not found\<close> exactly when no stored note has the id. When one
  has, the first such note is merged with the patch: every field the patch holds takes the
  patch's value, every other field keeps the stored value, and \<open>updatedAt\<close> becomes the current
  time, whatever the patch says. The merged note is returned, and the collection written
  holds it in the place of the old one.
\<close>

theorem update_not_found_iff:
  "(fst (update J now i p ls) = Inl (Error ''Note not found'')
      \<longleftrightarrow> i \<notin> note_id ` set (readLocal J ls)) \<and>
   (i \<in> note_id ` set (readLocal J ls) \<longrightarrow>
      (\<exists>idx < length (readLocal J ls).
         note_id (readLocal J ls ! idx) = i \<and>
         (\<forall>j < idx. note_id (readLocal J ls ! j) \<noteq> i) \<and>
         fst (update J now i p ls) = Inr (merged (readLocal J ls ! idx) p now) \<and>
         patch_applied (readLocal J ls ! idx) p (merged (readLocal J ls ! idx) p now) \<and>
         updatedAt (merged (readLocal J ls ! idx) p now) = now \<and>
         snd (update J now i p ls) =
           writeLocal J ((readLocal J ls)[idx := merged (readLocal J ls ! idx) p now]) ls \<and>
         (roundtrips J ((readLocal J ls)[idx := merged (readLocal J ls ! idx) p now]) \<longrightarrow>
            readLocal J (snd (update J now i p ls)) =
              (readLocal J ls)[idx := merged (readLocal J ls ! idx) p now])))"
proof (cases "findIndex (\<lambda>n. note_id n = i) (readLocal J ls)")
  case None
  then have "i \<notin> note_id ` set (readLocal J ls)"
    by (auto simp: findIndex_None)
  with None show ?thesis
    by (simp add: update_def)
next
  case (Some idx)
  from findIndex_Some [OF Some]
  have idx: "idx < length (readLocal J ls)" "note_id (readLocal J ls ! idx) = i"
    "\<forall>j < idx. note_id (readLocal J ls ! j) \<noteq> i"
    by auto
  from idx(1,2) have mem: "i \<in> note_id ` set (readLocal J ls)"
    by (metis imageI nth_mem)
  have res: "update J now i p ls =
      (Inr (merged (readLocal J ls ! idx) p now),
       writeLocal J ((readLocal J ls)[idx := merged (readLocal J ls ! idx) p now]) ls)"
    using Some by (simp add: update_def merged_def Let_def)
  have upd: "updatedAt (merged (readLocal J ls ! idx) p now) = now"
    by (simp add: merged_def)
  show ?thesis
    using idx mem upd by (auto simp: res readLocal_writeLocal patch_applied_merged)
qed

theorem update_not_found_iff_witness:
  "''b'' \<in> note_id ` set (readLocal JSON stored) \<and>
   roundtrips JSON [demo, retitled] \<and>
   fst (update JSON 20 ''b'' retitle stored) = Inr retitled \<and>
   readLocal JSON (snd (update JSON 20 ''b'' retitle stored)) = [demo, retitled]"
proof -
  have mem: "''b'' \<in> note_id ` set (readLocal JSON stored)"
    unfolding readLocal_stored by (simp add: demo2_def)
  with update_not_found_iff [of JSON 20 "''b''" retitle stored]
  obtain idx where idx: "idx < length (readLocal JSON stored)"
    "note_id (readLocal JSON stored ! idx) = ''b''"
    and res: "fst (update JSON 20 ''b'' retitle stored) = Inr (merged (readLocal JSON stored ! idx) retitle 20)"
    and pa: "patch_applied (readLocal JSON stored ! idx) retitle (merged (readLocal JSON stored ! idx) retitle 20)"
    and up: "updatedAt (merged (readLocal JSON stored ! idx) retitle 20) = 20"
    and rd: "roundtrips JSON ((readLocal JSON stored)[idx := merged (readLocal JSON stored ! idx) retitle 20]) \<longrightarrow>
         readLocal JSON (snd (update JSON 20 ''b'' retitle stored)) =
         (readLocal JSON stored)[idx := merged (readLocal JSON stored ! idx) retitle 20]"
    by blast
  from idx have one: "idx = 1"
    unfolding readLocal_stored by (cases idx) (simp_all add: demo_def)
  from pa up have m: "merged demo2 retitle 20 = retitled"
    unfolding one readLocal_stored
    by (intro Note.equality) (auto simp: patch_applied_def retitle_def retitled_def demo2_def)
  from res rd roundtrips_JSON mem m show ?thesis
    by (simp add: one readLocal_stored)
qed

section \<open>Derived list\<close>

text \<open>
  C5. A note is in the filtered list exactly when it is in the notes list, the trimmed and
  lowercased search text is empty or occurs in the note's lowercased title or content, and
  the selected tag is \<open>all\<close> or, trimmed and lowercased, is among the trimmed and lowercased
  tags of the note. The filtered list keeps the order of the notes list.
\<close>

theorem filteredNotes_iff:
  "(n \<in> set (filteredNotes S st) \<longleftrightarrow>
      n \<in> set (notes st) \<and>
      (toLowerCase S (trim S (search st)) = [] \<or>
       sublist (toLowerCase S (trim S (search st))) (toLowerCase S (title n)) \<or>
       sublist (toLowerCase S (trim S (search st))) (toLowerCase S (content n))) \<and>
      (selectedTag st = ''all'' \<or>
       toLowerCase S (trim S (selectedTag st)) \<in> (\<lambda>t. toLowerCase S (trim S t)) ` set (tags n))) \<and>
   subseq (filteredNotes S st) (notes st)"
  by (auto simp: filteredNotes_def normalizeTag_def Let_def)

lemma searching_facts:
  "demo \<in> set (notes searching)" "demo3 \<in> set (notes searching_home)"
  "sublist (toLowerCase ascii (trim ascii (search searching))) (toLowerCase ascii (title demo))"
  "sublist (toLowerCase ascii (trim ascii (search searching_home))) (toLowerCase ascii (title demo3))"
  "toLowerCase ascii (trim ascii (selectedTag searching))
     \<in> (\<lambda>t. toLowerCase ascii (trim ascii t)) ` set (tags demo)"
  "toLowerCase ascii (trim ascii (selectedTag searching_home))
     \<in> (\<lambda>t. toLowerCase ascii (trim ascii t)) ` set (tags demo3)"
  "toLowerCase ascii (trim ascii (search searching)) \<noteq> []"
  "\<not> sublist (toLowerCase ascii (trim ascii (search searching))) (toLowerCase ascii (title demo2))"
  "\<not> sublist (toLowerCase ascii (trim ascii (search searching))) (toLowerCase ascii (content demo2))"
  "selectedTag searching \<noteq> ''all''" "selectedTag searching_home \<noteq> ''all''"
  "toLowerCase ascii (trim ascii (selectedTag searching))
     \<notin> (\<lambda>t. toLowerCase ascii (trim ascii t)) ` set (tags demo3)"
  "toLowerCase ascii (trim ascii (selectedTag searching_home))
     \<notin> (\<lambda>t. toLowerCase ascii (trim ascii t)) ` set (tags demo)"
  by code_simp+

theorem filteredNotes_iff_witness:
  "demo \<in> set (filteredNotes ascii searching) \<and>
   demo2 \<notin> set (filteredNotes ascii searching) \<and>
   demo3 \<notin> set (filteredNotes ascii searching) \<and>
   demo3 \<in> set (filteredNotes ascii searching_home) \<and>
   demo \<notin> set (filteredNotes ascii searching_home)"
proof -
  have a: "demo \<in> set (filteredNotes ascii searching)"
    using filteredNotes_iff [of demo ascii searching] searching_facts by blast
  have b: "demo2 \<notin> set (filteredNotes ascii searching)"
    using filteredNotes_iff [of demo2 ascii searching] searching_facts by blast
  have c: "demo3 \<notin> set (filteredNotes ascii searching)"
    using filteredNotes_iff [of demo3 ascii searching] searching_facts by blast
  have d: "demo3 \<in> set (filteredNotes ascii searching_home)"
    using filteredNotes_iff [of demo3 ascii searching_home] searching_facts by blast
  have e: "demo \<notin> set (filteredNotes ascii searching_home)"
    using filteredNotes_iff [of demo ascii searching_home] searching_facts by blast
  from a b c d e show ?thesis by blast
qed

section \<open>Sort order\<close>

lemma set_insert_by: "set (insert_by cmp x ys) = insert x (set ys)"
  by (induction ys) auto

lemma set_sort_by: "set (sort_by cmp xs) = set xs"
  by (induction xs) (simp_all add: sort_by_def set_insert_by)

lemma sorted_insert_by:
  assumes "consistent_compare cmp" and "sorted_wrt (\<lambda>a b. cmp a b \<le> 0) ys"
  shows "sorted_wrt (\<lambda>a b. cmp a b \<le> 0) (insert_by cmp x ys)"
  using assms(2)
proof (induction ys)
  case Nil
  then show ?case by simp
next
  case (Cons y ys)
  from assms(1) have total: "\<And>a b. cmp a b \<le> 0 \<or> cmp b a \<le> 0"
    and trans: "\<And>a b c. cmp a b \<le> 0 \<Longrightarrow> cmp b c \<le> 0 \<Longrightarrow> cmp a c \<le> 0"
    unfolding consistent_compare_def by blast+
  show ?case
  proof (cases "cmp x y \<le> 0")
    case True
    with Cons.prems trans show ?thesis by auto
  next
    case False
    with total have "cmp y x \<le> 0" by blast
    with False Cons show ?thesis by (auto simp: set_insert_by)
  qed
qed

lemma sorted_sort_by:
  "consistent_compare cmp \<Longrightarrow> sorted_wrt (\<lambda>a b. cmp a b \<le> 0) (sort_by cmp xs)"
proof (induction xs)
  case Nil
  then show ?case by (simp add: sort_by_def)
next
  case (Cons x xs)
  then have "sorted_wrt (\<lambda>a b. cmp a b \<le> 0) (insert_by cmp x (sort_by cmp xs))"
    by (intro sorted_insert_by) simp_all
  then show ?case by (simp add: sort_by_def)
qed

lemma consistent_upsert_compare: "consistent_compare upsert_compare"
  unfolding consistent_compare_def upsert_compare_def by auto

lemma consistent_sortNotes_compare: "consistent_compare sortNotes_compare"
  unfolding consistent_compare_def sortNotes_compare_def by auto

lemma upsert_order:
  "pinned_first (sort_by upsert_compare xs) \<and> newest_first updatedAt (sort_by upsert_compare xs)"
proof -
  have s: "sorted_wrt (\<lambda>a b. upsert_compare a b \<le> 0) (sort_by upsert_compare xs)"
    by (rule sorted_sort_by [OF consistent_upsert_compare])
  have "pinned_first (sort_by upsert_compare xs)"
    unfolding pinned_first_def
    by (rule sorted_wrt_mono_rel [OF _ s]) (auto simp: upsert_compare_def split: if_splits)
  moreover have "newest_first updatedAt (sort_by upsert_compare xs)"
    unfolding newest_first_def
    by (rule sorted_wrt_mono_rel [OF _ s]) (auto simp: upsert_compare_def split: if_splits)
  ultimately show ?thesis ..
qed

lemma sortNotes_order:
  "pinned_first (sortNotes xs) \<and> newest_first updated_or_created (sortNotes xs)"
proof -
  have s: "sorted_wrt (\<lambda>a b. sortNotes_compare a b \<le> 0) (sortNotes xs)"
    unfolding sortNotes_def by (rule sorted_sort_by [OF consistent_sortNotes_compare])
  have "pinned_first (sortNotes xs)"
    unfolding pinned_first_def
    by (rule sorted_wrt_mono_rel [OF _ s]) (auto simp: sortNotes_compare_def split: if_splits)
  moreover have "newest_first updated_or_created (sortNotes xs)"
    unfolding newest_first_def
    by (rule sorted_wrt_mono_rel [OF _ s]) (auto simp: sortNotes_compare_def split: if_splits)
  ultimately show ?thesis ..
qed

lemma newest_first_cong:
  assumes "\<forall>n \<in> set xs. f n = g n" and "newest_first f xs"
  shows "newest_first g xs"
  using assms(2) unfolding newest_first_def
  by (rule sorted_wrt_mono_rel [rotated]) (use assms(1) in auto)

lemma newest_first_same_key:
  assumes "\<forall>n \<in> set xs. f n = g n"
  shows "newest_first f xs = newest_first g xs"
  using newest_first_cong [of xs f g] newest_first_cong [of xs g f] assms by auto

lemma no_zero_keys:
  "0 \<notin> updatedAt ` set xs \<Longrightarrow> \<forall>n \<in> set xs. updated_or_created n = updatedAt n"
  by (auto simp: updated_or_created_def)

lemma notes_load: "notes (snd (load J w)) = sortNotes (readLocal J (fst w))"
  by (simp add: load_def list_notes_def)

lemma set_sortNotes: "set (sortNotes xs) = set xs"
  by (simp add: sortNotes_def set_sort_by)

lemma board_facts:
  "map note_id (notes (snd board)) = [''p2'', ''p1'', ''z'', ''u2'', ''u1'']"
  "map note_id (notes (reducer board_state (UPSERT_NOTE (plain_old\<lparr>pinned := True, updatedAt := 5\<rparr>))))
     = [''p2'', ''u1'', ''p1'', ''u2'']"
  "0 \<notin> updatedAt ` set (notes (reducer board_state (UPSERT_NOTE (plain_old\<lparr>pinned := True, updatedAt := 5\<rparr>))))"
  by code_simp+

text \<open>
  C4, as amended. After the initial load and after every \<open>UPSERT_NOTE\<close>, every pinned note
  precedes every unpinned one. After the initial load, within the pinned and within the
  unpinned notes \<^verbatim>\<open>updatedAt || createdAt\<close> never increases. After an \<open>UPSERT_NOTE\<close> that leaves
  no note with a zero \<^verbatim>\<open>updatedAt\<close> in the list, the same holds; and on a list without a zero
  \<^verbatim>\<open>updatedAt\<close> that order is the order of \<^verbatim>\<open>updatedAt\<close>. Where \<open>UPSERT_NOTE\<close> puts a note whose
  \<^verbatim>\<open>updatedAt\<close> is zero is left open.
\<close>

theorem notes_order:
  "pinned_first (notes (snd (load J w))) \<and>
   newest_first updated_or_created (notes (snd (load J w))) \<and>
   (0 \<notin> updatedAt ` set (notes (snd (load J w))) \<longrightarrow>
      newest_first updatedAt (notes (snd (load J w)))) \<and>
   pinned_first (notes (reducer st (UPSERT_NOTE a))) \<and>
   (0 \<notin> updatedAt ` set (notes (reducer st (UPSERT_NOTE a))) \<longrightarrow>
      newest_first updated_or_created (notes (reducer st (UPSERT_NOTE a))) \<and>
      newest_first updatedAt (notes (reducer st (UPSERT_NOTE a))))"
proof -
  let ?l = "notes (snd (load J w))" and ?u = "notes (reducer st (UPSERT_NOTE a))"
  have 1: "pinned_first ?l" and 2: "newest_first updated_or_created ?l"
    using sortNotes_order by (simp_all add: notes_load)
  have 3: "newest_first updatedAt ?l" if "0 \<notin> updatedAt ` set ?l"
    using 2 newest_first_same_key [OF no_zero_keys [OF that]] by simp
  have 4: "pinned_first ?u" and 5: "newest_first updatedAt ?u"
    using upsert_order by (simp_all add: Let_def)
  have 6: "newest_first updated_or_created ?u" if "0 \<notin> updatedAt ` set ?u"
    using 5 newest_first_same_key [OF no_zero_keys [OF that]] by simp
  from 1 2 3 4 5 6 show ?thesis by blast
qed

theorem notes_order_witness:
  "map note_id (notes (snd board)) = [''p2'', ''p1'', ''z'', ''u2'', ''u1''] \<and>
   pinned_first (notes (snd board)) \<and>
   newest_first updated_or_created (notes (snd board)) \<and>
   map note_id (notes (reducer board_state (UPSERT_NOTE (plain_old\<lparr>pinned := True, updatedAt := 5\<rparr>))))
     = [''p2'', ''u1'', ''p1'', ''u2''] \<and>
   0 \<notin> updatedAt ` set (notes (reducer board_state (UPSERT_NOTE (plain_old\<lparr>pinned := True, updatedAt := 5\<rparr>)))) \<and>
   pinned_first (notes (reducer board_state (UPSERT_NOTE (plain_old\<lparr>pinned := True, updatedAt := 5\<rparr>)))) \<and>
   newest_first updated_or_created
     (notes (reducer board_state (UPSERT_NOTE (plain_old\<lparr>pinned := True, updatedAt := 5\<rparr>))))"
proof -
  note t = notes_order [of JSON "(writeLocal JSON [plain_old, pin_old, zero_stamp, plain_new, pin_new] Map.empty,
                      initialState)" board_state "plain_old\<lparr>pinned := True, updatedAt := 5\<rparr>"]
  from t board_facts show ?thesis unfolding board_def by blast
qed

text \<open>
  C4, as stated, fails for either reading of the last-update time. Read as \<^verbatim>\<open>updatedAt\<close>, it
  fails at the initial load, which places a note with \<^verbatim>\<open>updatedAt\<close> zero by its
  \<^verbatim>\<open>createdAt\<close>; read as \<^verbatim>\<open>updatedAt || createdAt\<close>, it fails after an \<open>UPSERT_NOTE\<close> on
  the same notes, whose comparator lacks that fallback.
\<close>

theorem order_counterexample:
  "\<not> newest_first updatedAt (notes (snd stale)) \<and>
   \<not> newest_first updated_or_created (notes (reducer (snd stale) (UPSERT_NOTE demo)))"
  by code_simp

section \<open>State and storage\<close>

lemma set_notes_upsert:
  "set (notes (reducer st (UPSERT_NOTE a))) =
     (if \<exists>n \<in> set (notes st). note_id n = note_id a
      then insert a {n \<in> set (notes st). note_id n \<noteq> note_id a}
      else insert a (set (notes st)))"
  by (auto simp: Let_def set_sort_by list_ex_iff)

lemma rewrite_first_findIndex:
  "findIndex (\<lambda>n. note_id n = i) xs = Some idx \<Longrightarrow> xs[idx := f (xs ! idx)] = rewrite_first i f xs"
  by (induction xs arbitrary: idx) (auto split: if_splits)

lemma set_rewrite_sole:
  assumes "sole_id xs i" and "findIndex (\<lambda>n. note_id n = i) xs = Some idx"
  shows "set (xs[idx := u]) = insert u {n \<in> set xs. note_id n \<noteq> i}"
  using assms
proof (induction xs arbitrary: idx)
  case Nil
  then show ?case by simp
next
  case (Cons x xs)
  show ?case
  proof (cases "note_id x = i")
    case True
    with Cons.prems have "filter (\<lambda>n. note_id n = i) xs = []"
      by (simp add: sole_id_def)
    then have "\<forall>n \<in> set xs. note_id n \<noteq> i"
      by (simp add: filter_empty_conv)
    with True Cons.prems show ?thesis by auto
  next
    case False
    with Cons.prems obtain k where k: "findIndex (\<lambda>n. note_id n = i) xs = Some k" "idx = Suc k"
      by auto
    from Cons.prems False have "sole_id xs i"
      by (simp add: sole_id_def)
    from Cons.IH [OF this k(1)] False k(2) show ?thesis by auto
  qed
qed

lemma merged_editor_payload:
  "merged old (editor_payload t c ts b) now =
     old\<lparr>title := t, content := c, tags := ts, pinned := b, updatedAt := now\<rparr>"
  by (simp add: merged_def spread_def editor_payload_def)

lemma merged_pin_patch: "merged old (pin_patch b) now = old\<lparr>pinned := b, updatedAt := now\<rparr>"
  by (simp add: merged_def spread_def pin_patch_def)

lemma newNote_editor_payload:
  "newNote now fresh (editor_payload t c ts b) =
     \<lparr> note_id = fresh, title = t, content = c, tags = ts, createdAt = now, updatedAt = now,
       pinned = b \<rparr>"
  by (simp add: newNote_def editor_payload_def)

text \<open>
  A completed update with a patch that keeps the id, followed by the upsert of its result.
\<close>

lemma update_upsert:
  assumes sync: "set (notes st) = set (readLocal J ls)"
    and sole: "sole_id (readLocal J ls) i"
    and keep: "\<And>old. note_id (merged old p now) = note_id old"
    and rt: "roundtrips J (rewrite_first i (\<lambda>old. merged old p now) (readLocal J ls))"
    and ok: "update J now i p ls = (Inr u, ls')"
  shows "readLocal J ls' = rewrite_first i (\<lambda>old. merged old p now) (readLocal J ls) \<and>
         set (notes (reducer st (UPSERT_NOTE u))) = set (readLocal J ls')"
proof (cases "findIndex (\<lambda>n. note_id n = i) (readLocal J ls)")
  case None
  with ok show ?thesis by (simp add: update_None)
next
  case (Some idx)
  let ?xs = "readLocal J ls"
  from findIndex_Some [OF Some] have idx: "idx < length ?xs" "note_id (?xs ! idx) = i"
    by auto
  from ok update_Some [OF Some, of now p]
  have u: "u = merged (?xs ! idx) p now" and ls': "ls' = writeLocal J (?xs[idx := u]) ls"
    by auto
  have list: "?xs[idx := u] = rewrite_first i (\<lambda>old. merged old p now) ?xs"
    unfolding u by (rule rewrite_first_findIndex [OF Some])
  with rt have read: "readLocal J ls' = ?xs[idx := u]"
    by (simp add: ls' readLocal_writeLocal)
  from u keep idx have uid: "note_id u = i"
    by simp
  have ex: "\<exists>n \<in> set (notes st). note_id n = note_id u"
    using sync idx uid by (metis nth_mem)
  have "set (notes (reducer st (UPSERT_NOTE u))) = insert u {n \<in> set ?xs. note_id n \<noteq> i}"
    using ex sync uid by (simp only: set_notes_upsert if_True)
  also have "\<dots> = set (?xs[idx := u])"
    using set_rewrite_sole [OF sole Some, of u] by simp
  finally show ?thesis
    using read list by simp
qed

lemma create_upsert:
  assumes sync: "set (notes st) = set (readLocal J ls)"
    and fresh: "note_id n \<notin> note_id ` set (readLocal J ls)"
    and rt: "roundtrips J (readLocal J ls @ [n])"
  shows "readLocal J (snd (create J n ls)) = readLocal J ls @ [n] \<and>
         set (notes (reducer st (UPSERT_NOTE n))) = set (readLocal J (snd (create J n ls)))"
proof -
  from rt have read: "readLocal J (snd (create J n ls)) = readLocal J ls @ [n]"
    by (simp add: create_def readLocal_writeLocal)
  from fresh sync have "\<not> (\<exists>m \<in> set (notes st). note_id m = note_id n)"
    by (metis imageI)
  then have "set (notes (reducer st (UPSERT_NOTE n))) = insert n (set (notes st))"
    by (simp only: set_notes_upsert if_False)
  with sync show ?thesis
    by (simp add: read)
qed

lemma remove_delete:
  assumes sync: "set (notes st) = set (readLocal J ls)"
    and rt: "roundtrips J (filter (\<lambda>n. note_id n \<noteq> i) (readLocal J ls))"
  shows "readLocal J (snd (remove J i ls)) = filter (\<lambda>n. note_id n \<noteq> i) (readLocal J ls) \<and>
         notes (reducer st (DELETE_NOTE i)) = filter (\<lambda>n. note_id n \<noteq> i) (notes st) \<and>
         set (notes (reducer st (DELETE_NOTE i))) = set (readLocal J (snd (remove J i ls)))"
proof -
  from rt have "readLocal J (snd (remove J i ls)) = filter (\<lambda>n. note_id n \<noteq> i) (readLocal J ls)"
    by (simp add: remove_def readLocal_writeLocal)
  with sync show ?thesis by simp
qed

lemma save_new:
  assumes "in_sync J w" and "editingNote (snd w) = None"
    and "fresh \<notin> note_id ` set (readLocal J (fst w))"
    and "roundtrips J (readLocal J (fst w) @ [newNote now fresh partial])"
  shows "fst (handleSaveNote J now fresh partial w) = None \<and>
         readLocal J (fst (snd (handleSaveNote J now fresh partial w)))
           = readLocal J (fst w) @ [newNote now fresh partial] \<and>
         in_sync J (snd (handleSaveNote J now fresh partial w))"
proof -
  have "note_id (newNote now fresh partial) = fresh"
    by (simp add: newNote_def)
  with assms(3) have f: "note_id (newNote now fresh partial) \<notin> note_id ` set (readLocal J (fst w))"
    by simp
  from create_upsert [OF _ f assms(4), of "snd w"] assms(1,2)
  show ?thesis
    by (simp add: handleSaveNote_def in_sync_def Let_def del: reducer.simps(6))
qed

lemma save_edit:
  assumes "in_sync J w" and "editingNote (snd w) = Some e"
    and "fst (handleSaveNote J now fresh p w) = None"
    and "sole_id (readLocal J (fst w)) (note_id e)"
    and "\<And>old. note_id (merged old p now) = note_id old"
    and "roundtrips J (rewrite_first (note_id e) (\<lambda>old. merged old p now) (readLocal J (fst w)))"
  shows "readLocal J (fst (snd (handleSaveNote J now fresh p w)))
           = rewrite_first (note_id e) (\<lambda>old. merged old p now) (readLocal J (fst w)) \<and>
         in_sync J (snd (handleSaveNote J now fresh p w))"
proof (cases "update J now (note_id e) p (fst w)")
  case (Pair r ls')
  show ?thesis
  proof (cases r)
    case (Inl err)
    with Pair assms(2,3) show ?thesis by (simp add: handleSaveNote_def)
  next
    case (Inr u)
    from update_upsert [OF _ assms(4,5,6), of "snd w" u ls'] assms(1) Pair Inr
    have "readLocal J ls' = rewrite_first (note_id e) (\<lambda>old. merged old p now) (readLocal J (fst w)) \<and>
          set (notes (reducer (snd w) (UPSERT_NOTE u))) = set (readLocal J ls')"
      by (simp add: in_sync_def)
    with Pair Inr assms(2) show ?thesis
      by (simp add: handleSaveNote_def in_sync_def del: reducer.simps(6))
  qed
qed

lemma toggle_pin:
  assumes "in_sync J w"
    and "fst (handleTogglePin J now n w) = None"
    and "sole_id (readLocal J (fst w)) (note_id n)"
    and "roundtrips J (rewrite_first (note_id n) (\<lambda>old. merged old (pin_patch (\<not> pinned n)) now)
           (readLocal J (fst w)))"
  shows "readLocal J (fst (snd (handleTogglePin J now n w)))
           = rewrite_first (note_id n) (\<lambda>old. merged old (pin_patch (\<not> pinned n)) now)
               (readLocal J (fst w)) \<and>
         in_sync J (snd (handleTogglePin J now n w))"
proof (cases "update J now (note_id n) (pin_patch (\<not> pinned n)) (fst w)")
  case (Pair r ls')
  show ?thesis
  proof (cases r)
    case (Inl err)
    with Pair assms(2) show ?thesis by (simp add: handleTogglePin_def)
  next
    case (Inr u)
    have keep: "\<And>old. note_id (merged old (pin_patch (\<not> pinned n)) now) = note_id old"
      by (simp add: merged_pin_patch)
    from update_upsert [OF _ assms(3) keep assms(4), of "snd w" u ls'] assms(1) Pair Inr
    have "readLocal J ls' = rewrite_first (note_id n) (\<lambda>old. merged old (pin_patch (\<not> pinned n)) now)
             (readLocal J (fst w)) \<and>
          set (notes (reducer (snd w) (UPSERT_NOTE u))) = set (readLocal J ls')"
      by (simp add: in_sync_def)
    with Pair Inr show ?thesis
      by (simp add: handleTogglePin_def in_sync_def del: reducer.simps(6))
  qed
qed

lemma delete_note:
  assumes "in_sync J w"
    and "roundtrips J (filter (\<lambda>n. note_id n \<noteq> i) (readLocal J (fst w)))"
  shows "readLocal J (fst (handleDelete J i w)) = filter (\<lambda>n. note_id n \<noteq> i) (readLocal J (fst w)) \<and>
         notes (snd (handleDelete J i w)) = filter (\<lambda>n. note_id n \<noteq> i) (notes (snd w)) \<and>
         in_sync J (handleDelete J i w)"
  using remove_delete [OF _ assms(2), of "snd w"] assms(1)
  by (simp add: handleDelete_def in_sync_def Let_def del: reducer.simps(7))

lemma load_sync:
  "fst (load J w) = fst w \<and> set (notes (snd (load J w))) = set (readLocal J (fst w)) \<and>
   in_sync J (load J w)"
  by (simp add: in_sync_def load_def list_notes_def set_sortNotes)

lemma loaded_facts:
  "in_sync JSON loaded" "editingNote (snd loaded) = None"
  "''n'' \<notin> note_id ` set (readLocal JSON (fst loaded))"
  "fst (handleTogglePin JSON 20 demo loaded) = None"
  "sole_id (readLocal JSON (fst loaded)) (note_id demo)"
  "readLocal JSON (fst loaded) @
     [\<lparr> note_id = ''n'', title = ''New'', content = ''text'', tags = [''x''], createdAt = 20,
         updatedAt = 20, pinned = True \<rparr>] = [demo, demo2, created]"
  "rewrite_first (note_id demo) (\<lambda>old. old\<lparr>pinned := \<not> pinned demo, updatedAt := 20\<rparr>)
     (readLocal JSON (fst loaded)) = [demo\<lparr>pinned := True, updatedAt := 20\<rparr>, demo2]"
  "filter (\<lambda>m. note_id m \<noteq> ''a'') (readLocal JSON (fst loaded)) = [demo2]"
  by code_simp+

lemma editing_facts:
  "in_sync JSON editing" "editingNote (snd editing) = Some demo2"
  "fst (handleSaveNote JSON 20 ''n'' (editor_payload ''New'' ''text'' [''x''] True) editing) = None"
  "sole_id (readLocal JSON (fst editing)) (note_id demo2)"
  "rewrite_first (note_id demo2)
     (\<lambda>old. old\<lparr>title := ''New'', content := ''text'', tags := [''x''], pinned := True,
                 updatedAt := 20\<rparr>) (readLocal JSON (fst editing)) =
     [demo, demo2\<lparr>title := ''New'', content := ''text'', tags := [''x''], updatedAt := 20\<rparr>]"
  by code_simp+

lemma twins_facts:
  "in_sync JSON twins" "fst (handleTogglePin JSON 20 twin1 twins) = None"
  "filter (\<lambda>m. note_id m \<noteq> ''a'') (readLocal JSON (fst twins)) = []"
  by code_simp+

text \<open>
  C1, as amended. The initial load leaves the storage as it was and the state holding the
  set of notes stored. From a state that holds the set of notes stored, every completed
  operation leads to such a state:
  \<^item> saving a new note, whose id no stored note has, appends it to the stored collection;
  \<^item> saving an edit, or toggling a pin, of an id that at most one stored note has rewrites
    the stored note of that id in its place, with the fields of the form (or the pin
    flipped) and the current time;
  \<^item> deleting removes every note of the given id from the stored collection and from the
    state.
  The premises on \<open>roundtrips\<close> are the platform's, for the list each operation writes.
\<close>

theorem state_matches_storage:
  assumes "in_sync J w"
  shows
   "(fst (load J v) = fst v \<and> in_sync J (load J v)) \<and>
    (editingNote (snd w) = None \<and> fresh \<notin> note_id ` set (readLocal J (fst w)) \<and>
     roundtrips J (readLocal J (fst w) @
        [\<lparr> note_id = fresh, title = t, content = c, tags = ts, createdAt = now,
            updatedAt = now, pinned = b \<rparr>]) \<longrightarrow>
       fst (handleSaveNote J now fresh (editor_payload t c ts b) w) = None \<and>
       readLocal J (fst (snd (handleSaveNote J now fresh (editor_payload t c ts b) w))) =
         readLocal J (fst w) @
           [\<lparr> note_id = fresh, title = t, content = c, tags = ts, createdAt = now,
               updatedAt = now, pinned = b \<rparr>] \<and>
       in_sync J (snd (handleSaveNote J now fresh (editor_payload t c ts b) w))) \<and>
    (editingNote (snd w) = Some e \<and>
     fst (handleSaveNote J now fresh (editor_payload t c ts b) w) = None \<and>
     sole_id (readLocal J (fst w)) (note_id e) \<and>
     roundtrips J (rewrite_first (note_id e)
        (\<lambda>old. old\<lparr>title := t, content := c, tags := ts, pinned := b, updatedAt := now\<rparr>)
        (readLocal J (fst w))) \<longrightarrow>
       readLocal J (fst (snd (handleSaveNote J now fresh (editor_payload t c ts b) w))) =
         rewrite_first (note_id e)
           (\<lambda>old. old\<lparr>title := t, content := c, tags := ts, pinned := b, updatedAt := now\<rparr>)
           (readLocal J (fst w)) \<and>
       in_sync J (snd (handleSaveNote J now fresh (editor_payload t c ts b) w))) \<and>
    (fst (handleTogglePin J now n w) = None \<and>
     sole_id (readLocal J (fst w)) (note_id n) \<and>
     roundtrips J (rewrite_first (note_id n)
        (\<lambda>old. old\<lparr>pinned := \<not> pinned n, updatedAt := now\<rparr>) (readLocal J (fst w))) \<longrightarrow>
       readLocal J (fst (snd (handleTogglePin J now n w))) =
         rewrite_first (note_id n)
           (\<lambda>old. old\<lparr>pinned := \<not> pinned n, updatedAt := now\<rparr>) (readLocal J (fst w)) \<and>
       in_sync J (snd (handleTogglePin J now n w))) \<and>
    (roundtrips J (filter (\<lambda>m. note_id m \<noteq> i) (readLocal J (fst w))) \<longrightarrow>
       readLocal J (fst (handleDelete J i w)) =
         filter (\<lambda>m. note_id m \<noteq> i) (readLocal J (fst w)) \<and>
       notes (snd (handleDelete J i w)) = filter (\<lambda>m. note_id m \<noteq> i) (notes (snd w)) \<and>
       in_sync J (handleDelete J i w))"
proof -
  let ?pl = "editor_payload t c ts b"
  let ?nn = "\<lparr> note_id = fresh, title = t, content = c, tags = ts, createdAt = now,
               updatedAt = now, pinned = b \<rparr>"
  let ?edit = "\<lambda>old. old\<lparr>title := t, content := c, tags := ts, pinned := b, updatedAt := now\<rparr>"
  let ?pin = "\<lambda>old. old\<lparr>pinned := \<not> pinned n, updatedAt := now\<rparr>"
  let ?prior = "readLocal J (fst w)"
  have nn: "newNote now fresh ?pl = ?nn"
    by (rule newNote_editor_payload)
  have ed: "(\<lambda>old. merged old ?pl now) = ?edit"
    by (simp add: merged_editor_payload)
  have pn: "(\<lambda>old. merged old (pin_patch (\<not> pinned n)) now) = ?pin"
    by (simp add: merged_pin_patch)
  have keep: "\<And>old. note_id (merged old ?pl now) = note_id old"
    by (simp add: merged_editor_payload)
  have 1: "fst (load J v) = fst v \<and> in_sync J (load J v)"
    using load_sync [of J v] by simp
  have 2: "fst (handleSaveNote J now fresh ?pl w) = None \<and>
           readLocal J (fst (snd (handleSaveNote J now fresh ?pl w))) = ?prior @ [?nn] \<and>
           in_sync J (snd (handleSaveNote J now fresh ?pl w))"
    if "editingNote (snd w) = None" "fresh \<notin> note_id ` set ?prior" "roundtrips J (?prior @ [?nn])"
  proof -
    from that(3) have "roundtrips J (?prior @ [newNote now fresh ?pl])"
      by (simp only: nn)
    from save_new [OF assms that(1,2) this] show ?thesis
      by (simp only: nn)
  qed
  have 3: "readLocal J (fst (snd (handleSaveNote J now fresh ?pl w))) =
             rewrite_first (note_id e) ?edit ?prior \<and>
           in_sync J (snd (handleSaveNote J now fresh ?pl w))"
    if "editingNote (snd w) = Some e" "fst (handleSaveNote J now fresh ?pl w) = None"
      "sole_id ?prior (note_id e)" "roundtrips J (rewrite_first (note_id e) ?edit ?prior)"
  proof -
    from that(4) have "roundtrips J (rewrite_first (note_id e) (\<lambda>old. merged old ?pl now) ?prior)"
      by (simp only: ed)
    from save_edit [OF assms that(1,2,3) keep this] show ?thesis
      by (simp only: ed)
  qed
  have 4: "readLocal J (fst (snd (handleTogglePin J now n w))) =
             rewrite_first (note_id n) ?pin ?prior \<and>
           in_sync J (snd (handleTogglePin J now n w))"
    if "fst (handleTogglePin J now n w) = None" "sole_id ?prior (note_id n)"
      "roundtrips J (rewrite_first (note_id n) ?pin ?prior)"
  proof -
    from that(3)
    have "roundtrips J (rewrite_first (note_id n)
            (\<lambda>old. merged old (pin_patch (\<not> pinned n)) now) ?prior)"
      by (simp only: pn)
    from toggle_pin [OF assms that(1,2) this] show ?thesis
      by (simp only: pn)
  qed
  have 5: "readLocal J (fst (handleDelete J i w)) = filter (\<lambda>m. note_id m \<noteq> i) ?prior \<and>
           notes (snd (handleDelete J i w)) = filter (\<lambda>m. note_id m \<noteq> i) (notes (snd w)) \<and>
           in_sync J (handleDelete J i w)"
    if "roundtrips J (filter (\<lambda>m. note_id m \<noteq> i) ?prior)"
    using delete_note [OF assms that] .
  from 1 2 3 4 5 show ?thesis by blast
qed

theorem state_matches_storage_witness:
  "in_sync JSON loaded \<and>
   readLocal JSON (fst (snd (handleSaveNote JSON 20 ''n'' (editor_payload ''New'' ''text'' [''x''] True) loaded)))
     = [demo, demo2, created] \<and>
   in_sync JSON (snd (handleSaveNote JSON 20 ''n'' (editor_payload ''New'' ''text'' [''x''] True) loaded)) \<and>
   readLocal JSON (fst (snd (handleTogglePin JSON 20 demo loaded)))
     = [demo\<lparr>pinned := True, updatedAt := 20\<rparr>, demo2] \<and>
   in_sync JSON (snd (handleTogglePin JSON 20 demo loaded)) \<and>
   readLocal JSON (fst (handleDelete JSON ''a'' loaded)) = [demo2] \<and>
   in_sync JSON (handleDelete JSON ''a'' loaded) \<and>
   in_sync JSON editing \<and>
   readLocal JSON (fst (snd (handleSaveNote JSON 20 ''n'' (editor_payload ''New'' ''text'' [''x''] True) editing)))
     = [demo, demo2\<lparr>title := ''New'', content := ''text'', tags := [''x''], updatedAt := 20\<rparr>] \<and>
   in_sync JSON (snd (handleSaveNote JSON 20 ''n'' (editor_payload ''New'' ''text'' [''x''] True) editing)) \<and>
   in_sync JSON twins \<and>
   readLocal JSON (fst (handleDelete JSON ''a'' twins)) = [] \<and>
   in_sync JSON (handleDelete JSON ''a'' twins)"
proof -
  note a = state_matches_storage [OF loaded_facts(1),
      where v = loaded and fresh = "''n''" and t = "''New''" and c = "''text''" and ts = "[''x'']"
        and now = 20 and b = True and e = demo2 and n = demo and i = "''a''"]
  note b = state_matches_storage [OF editing_facts(1),
      where v = loaded and fresh = "''n''" and t = "''New''" and c = "''text''" and ts = "[''x'']"
        and now = 20 and b = True and e = demo2 and n = demo and i = "''a''"]
  note c = state_matches_storage [OF twins_facts(1),
      where v = loaded and fresh = "''n''" and t = "''New''" and c = "''text''" and ts = "[''x'']"
        and now = 20 and b = True and e = demo2 and n = demo and i = "''a''"]
  have new: "readLocal JSON (fst (snd (handleSaveNote JSON 20 ''n'' (editor_payload ''New'' ''text'' [''x''] True) loaded)))
     = [demo, demo2, created] \<and>
     in_sync JSON (snd (handleSaveNote JSON 20 ''n'' (editor_payload ''New'' ''text'' [''x''] True) loaded))"
    using a loaded_facts(2,3) roundtrips_JSON unfolding loaded_facts(6) by blast
  have pin: "readLocal JSON (fst (snd (handleTogglePin JSON 20 demo loaded)))
     = [demo\<lparr>pinned := True, updatedAt := 20\<rparr>, demo2] \<and>
     in_sync JSON (snd (handleTogglePin JSON 20 demo loaded))"
    using a loaded_facts(4,5) roundtrips_JSON unfolding loaded_facts(7) by blast
  have del: "readLocal JSON (fst (handleDelete JSON ''a'' loaded)) = [demo2] \<and>
     in_sync JSON (handleDelete JSON ''a'' loaded)"
    using a roundtrips_JSON unfolding loaded_facts(8) by blast
  have edit: "readLocal JSON (fst (snd (handleSaveNote JSON 20 ''n'' (editor_payload ''New'' ''text'' [''x''] True) editing)))
     = [demo, demo2\<lparr>title := ''New'', content := ''text'', tags := [''x''], updatedAt := 20\<rparr>] \<and>
     in_sync JSON (snd (handleSaveNote JSON 20 ''n'' (editor_payload ''New'' ''text'' [''x''] True) editing))"
    using b editing_facts(2,3,4) roundtrips_JSON unfolding editing_facts(5) by blast
  have del2: "readLocal JSON (fst (handleDelete JSON ''a'' twins)) = [] \<and>
     in_sync JSON (handleDelete JSON ''a'' twins)"
    using c roundtrips_JSON unfolding twins_facts(3) by blast
  from new pin del edit del2 loaded_facts(1) editing_facts(1) twins_facts(1)
  show ?thesis by blast
qed

text \<open>
  C1, as stated, fails where two stored notes share an id: \<open>update\<close> rewrites the first of
  them in the storage, and the reducer replaces both in the state. It fails as well where a
  new note takes an id that is stored already: the storage keeps both notes, the state the
  new one only.
\<close>

theorem sync_counterexample:
  "in_sync JSON twins \<and> fst (handleTogglePin JSON 20 twin1 twins) = None \<and>
   \<not> in_sync JSON (snd (handleTogglePin JSON 20 twin1 twins)) \<and>
   in_sync JSON loaded \<and> editingNote (snd loaded) = None \<and>
   fst (handleSaveNote JSON 20 ''a'' (editor_payload ''New'' ''text'' [''x''] True) loaded) = None \<and>
   \<not> in_sync JSON (snd (handleSaveNote JSON 20 ''a'' (editor_payload ''New'' ''text'' [''x''] True) loaded))"
  by code_simp

end
